theory Spec2Isabelle
  imports Complex_Main "HOL-Library.Log_Nat"
begin

section \<open>Python values read from dictionaries\<close>

text \<open>
  The engine hands dictionaries to the application, and the application reads them with
  \<^verbatim>\<open>d.get(key)\<close>, \<^verbatim>\<open>d.get(key, default)\<close> and \<^verbatim>\<open>d[key]\<close>.
  What such a read returns depends on three cases: the key is absent, the key is bound
  to \<^verbatim>\<open>None\<close>, or the key is bound to a value.
\<close>

datatype 'a field = Missing | Null | Present 'a

text \<open>\<^verbatim>\<open>d.get(key)\<close>: an absent key reads as \<^verbatim>\<open>None\<close>.\<close>

fun py_get :: "'a field \<Rightarrow> 'a option" where
  "py_get Missing = None"
| "py_get Null = None"
| "py_get (Present v) = Some v"

text \<open>\<^verbatim>\<open>d.get(key, default)\<close>: only an absent key reads as the default.\<close>

fun py_get_default :: "'a field \<Rightarrow> 'a \<Rightarrow> 'a option" where
  "py_get_default Missing d = Some d"
| "py_get_default Null d = None"
| "py_get_default (Present v) d = Some v"

section \<open>Decimal text of an integer\<close>

text \<open>
  \<^verbatim>\<open>f"{h}p"\<close> formats the integer \<^verbatim>\<open>h\<close> as \<^verbatim>\<open>str(h)\<close> does: a minus sign
  for a negative number, then the decimal digits without leading zeros.
\<close>

definition digit_char :: "nat \<Rightarrow> char" where
  "digit_char d = char_of (48 + d)"

function str_nat :: "nat \<Rightarrow> string" where
  "str_nat n = (if n < 10 then [digit_char n] else str_nat (n div 10) @ [digit_char (n mod 10)])"
  by pat_completeness auto
termination
  by (relation "measure (\<lambda>n. n)") auto

declare str_nat.simps [simp del]

definition str_int :: "int \<Rightarrow> string" where
  "str_int i = (if i < 0 then CHR ''-'' # str_nat (nat (- i)) else str_nat (nat i))"

section \<open>Resolution resolver\<close>

text \<open>
  A format dictionary of the engine, restricted to the two keys that
  \<^verbatim>\<open>get_available_resolutions\<close> reads: \<^verbatim>\<open>vcodec\<close> (a string or
  \<^verbatim>\<open>None\<close>) and \<^verbatim>\<open>height\<close> (an integer or \<^verbatim>\<open>None\<close>).
\<close>

record format_dict =
  vcodec :: "string field"
  height :: "int field"

text \<open>\<^verbatim>\<open>fmt.get("vcodec", "none") != "none"\<close>\<close>

definition has_video_stream :: "format_dict \<Rightarrow> bool" where
  "has_video_stream fmt = (py_get_default (vcodec fmt) ''none'' \<noteq> Some ''none'')"

text \<open>\<^verbatim>\<open>fmt.get("height")\<close> as a condition: \<^verbatim>\<open>None\<close> and \<^verbatim>\<open>0\<close> are false.\<close>

definition has_height :: "format_dict \<Rightarrow> bool" where
  "has_height fmt = (case py_get (height fmt) of None \<Rightarrow> False | Some h \<Rightarrow> h \<noteq> 0)"

text \<open>
  The loop over \<^verbatim>\<open>formats\<close> that fills the set \<^verbatim>\<open>heights\<close>.
  \<^verbatim>\<open>fmt["height"]\<close> is read only where \<^verbatim>\<open>fmt.get("height")\<close> was true, so the
  key is present there.
\<close>

fun collect_heights :: "int set \<Rightarrow> format_dict list \<Rightarrow> int set" where
  "collect_heights heights [] = heights"
| "collect_heights heights (fmt # formats) =
     (if has_video_stream fmt \<and> has_height fmt
      then (case height fmt of
              Present h \<Rightarrow> collect_heights (insert h heights) formats
            | _ \<Rightarrow> collect_heights heights formats)
      else collect_heights heights formats)"

text \<open>
  \<^verbatim>\<open>sorted(heights, reverse=True)\<close>: the elements of a set are distinct, so the
  descending order is the ascending one reversed.
\<close>

definition sorted_desc :: "int set \<Rightarrow> int list" where
  "sorted_desc heights = rev (sorted_list_of_set heights)"

definition res_label :: "int \<Rightarrow> string" where
  "res_label h = str_int h @ ''p''"

definition get_available_resolutions :: "format_dict list \<Rightarrow> string list" where
  "get_available_resolutions formats =
     map res_label (sorted_desc (collect_heights {} formats))"

section \<open>URL validator\<close>

text \<open>
  Python strings are sequences of code points. A \<^typ>\<open>char\<close> stands here for a code point
  below 256, and the two character classes the validator depends on follow the tables of
  the interpreter on that range: \<^verbatim>\<open>str.strip()\<close> removes the characters for which
  \<^verbatim>\<open>str.isspace()\<close> holds, and \<^verbatim>\<open>\w\<close> in a pattern over \<^verbatim>\<open>str\<close> matches the
  alphanumeric characters and the underscore.
\<close>

definition py_isspace :: "char \<Rightarrow> bool" where
  "py_isspace c =
     (let n = (of_char c :: nat)
      in (9 \<le> n \<and> n \<le> 13) \<or> (28 \<le> n \<and> n \<le> 32) \<or> n = 133 \<or> n = 160)"

definition strip :: "string \<Rightarrow> string" where
  "strip s = rev (dropWhile py_isspace (rev (dropWhile py_isspace s)))"

definition word_char :: "char \<Rightarrow> bool" where
  "word_char c =
     (let n = (of_char c :: nat)
      in (48 \<le> n \<and> n \<le> 57) \<or> (65 \<le> n \<and> n \<le> 90) \<or> n = 95 \<or> (97 \<le> n \<and> n \<le> 122)
         \<or> n = 170 \<or> n = 178 \<or> n = 179 \<or> n = 181 \<or> n = 185 \<or> n = 186
         \<or> (188 \<le> n \<and> n \<le> 190) \<or> (192 \<le> n \<and> n \<le> 214)
         \<or> (216 \<le> n \<and> n \<le> 246) \<or> (248 \<le> n \<and> n \<le> 255))"

text \<open>
  The fragment of the pattern language that \<^verbatim>\<open>_YT_REGEX\<close> uses: the anchor
  \<^verbatim>\<open>^\<close>, literal text, a bracket expression, concatenation, alternation, the optional
  group \<^verbatim>\<open>(...)?\<close> and the counted repetition \<^verbatim>\<open>{n}\<close>.
\<close>

datatype atom = Word | Ch char

datatype regex =
    Bol
  | Lit string
  | Bracket "atom list"
  | Cat regex regex
  | Alt regex regex
  | Opt regex
  | Rep regex nat

fun atom_matches :: "atom \<Rightarrow> char \<Rightarrow> bool" where
  "atom_matches Word c = word_char c"
| "atom_matches (Ch x) c = (c = x)"

text \<open>
  A backtracking matcher. A configuration is the position in the subject string together
  with the text that remains from there; \<^verbatim>\<open>rmatch r\<close> lists every configuration in
  which a match of \<^verbatim>\<open>r\<close> that starts at the given one can end.
\<close>

type_synonym conf = "nat \<times> string"

primrec iter :: "nat \<Rightarrow> (conf \<Rightarrow> conf list) \<Rightarrow> conf \<Rightarrow> conf list" where
  "iter 0 m = (\<lambda>c. [c])"
| "iter (Suc n) m = (\<lambda>c. concat (map (iter n m) (m c)))"

primrec rmatch :: "regex \<Rightarrow> conf \<Rightarrow> conf list" where
  "rmatch Bol = (\<lambda>c. if fst c = 0 then [c] else [])"
| "rmatch (Lit w) =
     (\<lambda>c. if take (length w) (snd c) = w
          then [(fst c + length w, drop (length w) (snd c))] else [])"
| "rmatch (Bracket as) =
     (\<lambda>c. case snd c of
            [] \<Rightarrow> []
          | x # t \<Rightarrow> if list_ex (\<lambda>a. atom_matches a x) as then [(Suc (fst c), t)] else [])"
| "rmatch (Cat r1 r2) = (\<lambda>c. concat (map (rmatch r2) (rmatch r1 c)))"
| "rmatch (Alt r1 r2) = (\<lambda>c. rmatch r1 c @ rmatch r2 c)"
| "rmatch (Opt r) = (\<lambda>c. rmatch r c @ [c])"
| "rmatch (Rep r n) = iter n (rmatch r)"

text \<open>
  \<^verbatim>\<open>pattern.search(s)\<close>: a match may start at any position of \<^verbatim>\<open>s\<close>, the end of the
  string included.
\<close>

definition re_search :: "regex \<Rightarrow> string \<Rightarrow> bool" where
  "re_search r s = list_ex (\<lambda>k. rmatch r (k, drop k s) \<noteq> []) [0 ..< Suc (length s)]"

definition YT_REGEX :: regex where
  "YT_REGEX =
     Cat Bol
    (Cat (Opt (Cat (Lit ''http'') (Cat (Opt (Lit ''s'')) (Lit ''://''))))
    (Cat (Opt (Lit ''www.''))
    (Cat (Alt (Lit ''youtube.com/watch?v='')
         (Alt (Lit ''youtu.be/'')
              (Lit ''youtube.com/shorts/'')))
         (Rep (Bracket [Word, Ch CHR ''-'']) 11))))"

definition is_valid_youtube_url :: "string \<Rightarrow> bool" where
  "is_valid_youtube_url url = re_search YT_REGEX (strip url)"

text \<open>
  The canonical link shape in the words of the specification: an optional scheme, an
  optional \<^verbatim>\<open>www.\<close>, the host of the platform with a watch, short-link or shorts path,
  then an identifier of 11 characters, each a letter, a digit, a hyphen or an underscore
  (the letters and digits of the class \<^verbatim>\<open>\w\<close>).
\<close>

definition ident_char :: "char \<Rightarrow> bool" where
  "ident_char c = (word_char c \<or> c = CHR ''-'')"

definition canonical_shape :: "string \<Rightarrow> bool" where
  "canonical_shape s =
     (\<exists>scheme www path ident.
        s = scheme @ www @ path @ ident
        \<and> scheme \<in> {[], ''http://'', ''https://''}
        \<and> www \<in> {[], ''www.''}
        \<and> path \<in> {''youtube.com/watch?v='', ''youtu.be/'', ''youtube.com/shorts/''}
        \<and> length ident = 11 \<and> list_all ident_char ident)"

definition begins_with_shape :: "string \<Rightarrow> bool" where
  "begins_with_shape s = (\<exists>p rest. s = p @ rest \<and> canonical_shape p)"

section \<open>Download orchestrator\<close>

text \<open>
  The messages that the application shows with \<^verbatim>\<open>st.error\<close> before it returns
  \<^verbatim>\<open>None\<close>. Each carries the text of the exception where the source formats it into
  the message; \<^verbatim>\<open>error_text\<close> is the message after its leading cross mark.
\<close>

datatype ui_error =
    Could_not_fetch_info string
  | Unexpected_info_error string
  | No_output_file
  | Download_failed string
  | Unexpected_download_error string

fun error_text :: "ui_error \<Rightarrow> string" where
  "error_text (Could_not_fetch_info exc) = ''Could not fetch video info: '' @ exc"
| "error_text (Unexpected_info_error exc) = ''An unexpected error occurred: '' @ exc"
| "error_text No_output_file = ''Download succeeded but no output file was found.''"
| "error_text (Download_failed exc) = ''Download failed: '' @ exc"
| "error_text (Unexpected_download_error exc) = ''Unexpected error during download: '' @ exc"

text \<open>
  What a call of the engine can raise: its own \<^verbatim>\<open>DownloadError\<close>, or any other
  exception; both with their text.
\<close>

datatype engine_exn = DownloadError string | OtherException string

subsection \<open>Division of integers\<close>

text \<open>
  \<^verbatim>\<open>a / b\<close> on two Python integers is true division: the result is the double nearest
  to the exact quotient, with ties going to the even significand; it raises
  \<^verbatim>\<open>ZeroDivisionError\<close> for a zero divisor and \<^verbatim>\<open>OverflowError\<close> when the result
  is too large for a double. A finite double is identified with the rational number it
  denotes. Doubles have a significand of 53 bits; their smallest spacing is \<open>2\<close> to the
  power \<open>-1074\<close>, and their magnitude is below \<open>2\<close> to the power \<open>1024\<close>.
\<close>

datatype py_exception = TypeError | ZeroDivisionError | OverflowError

definition round_half_even :: "rat \<Rightarrow> int" where
  "round_half_even y =
     (let f = \<lfloor>y\<rfloor>; r = y - of_int f
      in if r < 1 / 2 then f else if 1 / 2 < r then f + 1 else if even f then f else f + 1)"

text \<open>
  For a positive \<^verbatim>\<open>x\<close>, the exponent \<^verbatim>\<open>e\<close> with \<open>2\<close> to the \<^verbatim>\<open>e\<close> at most
  \<^verbatim>\<open>x\<close> and \<^verbatim>\<open>x\<close> below \<open>2\<close> to the \<^verbatim>\<open>e + 1\<close>, from the bit lengths of the
  numerator and the denominator.
\<close>

definition floor_log2 :: "rat \<Rightarrow> int" where
  "floor_log2 x =
     (let e = bitlen (fst (quotient_of x)) - bitlen (snd (quotient_of x))
      in if 2 powi e \<le> x then e else e - 1)"

definition round_double :: "rat \<Rightarrow> rat" where
  "round_double x =
     (if x = 0 then 0
      else (let k = max (floor_log2 \<bar>x\<bar> - 52) (- 1074)
            in sgn x * of_int (round_half_even (\<bar>x\<bar> / 2 powi k)) * 2 powi k))"

definition int_true_divide :: "int \<Rightarrow> int \<Rightarrow> py_exception + rat" where
  "int_true_divide a b =
     (if b = 0 then Inl ZeroDivisionError
      else (let q = round_double (of_int a / of_int b)
            in if 2 ^ 1024 \<le> \<bar>q\<bar> then Inl OverflowError else Inr q))"

subsection \<open>The progress hook\<close>

text \<open>
  The dictionary that the engine passes to a progress hook, restricted to the keys the
  hook reads. The engine always supplies \<^verbatim>\<open>status\<close>. The byte counts are integers,
  or \<^verbatim>\<open>None\<close>, or absent; an estimate that the engine passes as a floating-point
  number is outside this model.
\<close>

record progress_dict =
  status :: string
  total_bytes :: "int field"
  total_bytes_estimate :: "int field"
  downloaded_bytes :: "int field"

text \<open>
  The calls the hook makes on the two widgets, which are outside the program. The
  fraction is a double. The text of the progress bar while downloading is the percentage
  formatted from the fraction; on completion it is a fixed text that announces the
  processing phase; the status text says that the size is unknown.
\<close>

datatype progress_text = Downloading_percent rat | Download_complete_processing

datatype ui_action =
    Progress_bar rat progress_text
  | Status_text_size_unknown

text \<open>\<^verbatim>\<open>d.get("total_bytes") or d.get("total_bytes_estimate") or 0\<close>\<close>

definition hook_total :: "progress_dict \<Rightarrow> int" where
  "hook_total d =
     (case py_get (total_bytes d) of
        Some x \<Rightarrow> if x \<noteq> 0 then x
                  else (case py_get (total_bytes_estimate d) of
                          Some y \<Rightarrow> if y \<noteq> 0 then y else 0
                        | None \<Rightarrow> 0)
      | None \<Rightarrow> (case py_get (total_bytes_estimate d) of
                   Some y \<Rightarrow> if y \<noteq> 0 then y else 0
                 | None \<Rightarrow> 0))"

text \<open>
  \<^verbatim>\<open>_progress_hook\<close>. Dividing \<^verbatim>\<open>None\<close>, which \<^verbatim>\<open>d.get("downloaded_bytes", 0)\<close>
  returns when the key is bound to \<^verbatim>\<open>None\<close>, raises \<^verbatim>\<open>TypeError\<close>; the division
  of the integers can raise \<^verbatim>\<open>OverflowError\<close>. \<^verbatim>\<open>min(q, 1.0)\<close> compares doubles.
\<close>

definition progress_hook :: "progress_dict \<Rightarrow> py_exception + ui_action list" where
  "progress_hook d =
     (if status d = ''downloading'' then
        (let total = hook_total d;
             downloaded = py_get_default (downloaded_bytes d) 0
         in if total > 0 then
              (case downloaded of
                 None \<Rightarrow> Inl TypeError
               | Some n \<Rightarrow>
                   (case int_true_divide n total of
                      Inl e \<Rightarrow> Inl e
                    | Inr q \<Rightarrow> (let pct = min q 1
                                in Inr [Progress_bar pct (Downloading_percent pct)])))
            else Inr [Status_text_size_unknown])
      else if status d = ''finished'' then
        Inr [Progress_bar 1 Download_complete_processing]
      else Inr [])"

subsection \<open>The options given to the engine\<close>

record postprocessor =
  key :: string
  preferredcodec :: string
  preferredquality :: string

text \<open>
  The dictionary \<^verbatim>\<open>ydl_opts\<close>; a key that the source does not set is \<^verbatim>\<open>None\<close>.
\<close>

record ydl_opts =
  format :: string
  outtmpl :: string
  quiet :: bool
  no_warnings :: bool
  progress_hooks :: "(progress_dict \<Rightarrow> py_exception + ui_action list) list"
  postprocessors :: "postprocessor list option"
  merge_output_format :: "string option"
  ffmpeg_location :: "string option"

text \<open>\<^verbatim>\<open>os.path.join(a, b)\<close> for a relative \<^verbatim>\<open>b\<close>, with the separator of POSIX.\<close>

definition path_join :: "string \<Rightarrow> string \<Rightarrow> string" where
  "path_join a b = (if a = [] \<or> last a = CHR ''/'' then a @ b else a @ ''/'' @ b)"

text \<open>\<^verbatim>\<open>s.replace(old, "")\<close> for a pattern \<^verbatim>\<open>old\<close> of one character.\<close>

definition remove_char :: "char \<Rightarrow> string \<Rightarrow> string" where
  "remove_char c s = filter (\<lambda>x. x \<noteq> c) s"

text \<open>
  \<^verbatim>\<open>resolution.replace("p", "") if resolution else "720"\<close>: \<^verbatim>\<open>None\<close> and the
  empty string are false.
\<close>

definition video_height :: "string option \<Rightarrow> string" where
  "video_height resolution =
     (case resolution of
        None \<Rightarrow> ''720''
      | Some r \<Rightarrow> if r \<noteq> [] then remove_char CHR ''p'' r else ''720'')"

text \<open>
  \<^verbatim>\<open>if FFMPEG_DIR: ydl_opts["ffmpeg_location"] = FFMPEG_DIR\<close>, where
  \<^verbatim>\<open>FFMPEG_DIR\<close> is the module constant that \<^verbatim>\<open>_find_ffmpeg()\<close> computed.
\<close>

definition with_ffmpeg :: "string option \<Rightarrow> ydl_opts \<Rightarrow> ydl_opts" where
  "with_ffmpeg FFMPEG_DIR opts =
     (case FFMPEG_DIR of
        None \<Rightarrow> opts
      | Some dir \<Rightarrow> if dir \<noteq> [] then opts\<lparr>ffmpeg_location := Some dir\<rparr> else opts)"

definition download_opts :: "string option \<Rightarrow> string \<Rightarrow> string option \<Rightarrow> string \<Rightarrow> ydl_opts" where
  "download_opts FFMPEG_DIR fmt resolution tmp_dir =
     (let output_template = path_join tmp_dir ''%(title)s.%(ext)s''
      in if fmt = ''audio'' then
           with_ffmpeg FFMPEG_DIR
             \<lparr>format = ''bestaudio/best'',
              outtmpl = output_template,
              quiet = True,
              no_warnings = True,
              progress_hooks = [progress_hook],
              postprocessors =
                Some [\<lparr>key = ''FFmpegExtractAudio'',
                       preferredcodec = ''mp3'',
                       preferredquality = ''192''\<rparr>],
              merge_output_format = None,
              ffmpeg_location = None\<rparr>
         else
           (let height = video_height resolution
            in with_ffmpeg FFMPEG_DIR
                 \<lparr>format = ''bestvideo[height<='' @ height @ '']+bestaudio/best[height<=''
                             @ height @ '']'',
                  outtmpl = output_template,
                  quiet = True,
                  no_warnings = True,
                  progress_hooks = [progress_hook],
                  postprocessors = None,
                  merge_output_format = Some ''mp4'',
                  ffmpeg_location = None\<rparr>))"

subsection \<open>The download\<close>

text \<open>
  The engine and the file system are outside the program. A run of the body of the
  \<^verbatim>\<open>try\<close> block is given by a function \<^verbatim>\<open>ydl\<close> of the options and the list of
  URLs: it either raises, or the download returns and \<^verbatim>\<open>Path(tmp_dir).iterdir()\<close>
  then lists the given paths, in the order of the listing.

  \<^verbatim>\<open>download_content\<close> returns \<^verbatim>\<open>Inr path\<close> for a returned path, and
  \<^verbatim>\<open>Inl e\<close> when it shows the message \<^verbatim>\<open>e\<close> and returns \<^verbatim>\<open>None\<close>.
\<close>

type_synonym engine = "ydl_opts \<Rightarrow> string list \<Rightarrow> engine_exn + string list"

definition download_content ::
  "string option \<Rightarrow> engine \<Rightarrow> string \<Rightarrow> string \<Rightarrow> string option \<Rightarrow> string \<Rightarrow> ui_error + string" where
  "download_content FFMPEG_DIR ydl url fmt resolution tmp_dir =
     (case ydl (download_opts FFMPEG_DIR fmt resolution tmp_dir) [url] of
        Inr files \<Rightarrow> (case files of
                        f # _ \<Rightarrow> Inr f
                      | [] \<Rightarrow> Inl No_output_file)
      | Inl (DownloadError exc) \<Rightarrow> Inl (Download_failed exc)
      | Inl (OtherException exc) \<Rightarrow> Inl (Unexpected_download_error exc))"



section \<open>Metadata and its cache\<close>

text \<open>
  The dictionary that \<^verbatim>\<open>extract_info\<close> returns, restricted to the keys that
  \<^verbatim>\<open>get_video_info\<close> reads, and the dictionary that \<^verbatim>\<open>get_video_info\<close> builds
  from it. Each value of the latter is what \<^verbatim>\<open>info.get(key, default)\<close> returns,
  \<^verbatim>\<open>None\<close> included.
\<close>

record extracted_info =
  raw_title :: "string field"
  raw_thumbnail :: "string field"
  raw_formats :: "format_dict list field"
  raw_duration :: "int field"
  raw_uploader :: "string field"
  raw_view_count :: "int field"

record video_info =
  title :: "string option"
  thumbnail :: "string option"
  formats :: "format_dict list option"
  duration :: "int option"
  uploader :: "string option"
  view_count :: "int option"

text \<open>
  The extraction of the engine is outside the program: a function of the location of
  ffmpeg passed in the options (the other options are the constants \<^verbatim>\<open>quiet\<close>,
  \<^verbatim>\<open>no_warnings\<close> and \<^verbatim>\<open>skip_download\<close>) and of the URL, which raises or returns
  the dictionary.
\<close>

type_synonym extractor = "string option \<Rightarrow> string \<Rightarrow> engine_exn + extracted_info"

definition ffmpeg_option :: "string option \<Rightarrow> string option" where
  "ffmpeg_option FFMPEG_DIR =
     (case FFMPEG_DIR of None \<Rightarrow> None | Some dir \<Rightarrow> if dir \<noteq> [] then Some dir else None)"

text \<open>
  The two exception handlers of \<^verbatim>\<open>get_video_info\<close> show a message and return
  \<^verbatim>\<open>None\<close> normally; \<^verbatim>\<open>info_failure\<close> is the message. The body of the
  function gives the value it returns and the messages it shows.
\<close>

fun info_failure :: "engine_exn \<Rightarrow> ui_error" where
  "info_failure (DownloadError exc) = Could_not_fetch_info exc"
| "info_failure (OtherException exc) = Unexpected_info_error exc"

definition get_video_info_body ::
  "string option \<Rightarrow> extractor \<Rightarrow> string \<Rightarrow> video_info option \<times> ui_error list" where
  "get_video_info_body FFMPEG_DIR extract_info url =
     (case extract_info (ffmpeg_option FFMPEG_DIR) url of
        Inr info \<Rightarrow>
          (Some \<lparr>title = py_get_default (raw_title info) ''Unknown Title'',
                 thumbnail = py_get_default (raw_thumbnail info) [],
                 formats = py_get_default (raw_formats info) [],
                 duration = py_get_default (raw_duration info) 0,
                 uploader = py_get_default (raw_uploader info) ''Unknown'',
                 view_count = py_get_default (raw_view_count info) 0\<rparr>, [])
      | Inl exc \<Rightarrow> (None, [info_failure exc]))"

text \<open>
  The decorator \<^verbatim>\<open>st.cache_data(show_spinner=False, ttl=600)\<close> belongs to the UI
  library, not to this repository; it is modelled as the library documents it. A call
  looks the argument up; an entry younger than \<^verbatim>\<open>ttl\<close> seconds is returned, with the
  messages recorded when it was computed shown again, and the function is not run.
  Otherwise the function is run and, when it returns, its return value is stored under
  the argument with the current time, whatever the value is; only an exception that
  leaves the function prevents the entry. The program keeps no other cache.

  The state also counts the calls of the engine. Time is in seconds.
\<close>

record cache_entry =
  cached_value :: "video_info option"
  cached_messages :: "ui_error list"
  stored_at :: nat

record cache_state =
  entries :: "(string \<times> cache_entry) list"
  engine_calls :: nat

definition ttl :: nat where
  "ttl = 600"

definition cache_lookup :: "cache_state \<Rightarrow> nat \<Rightarrow> string \<Rightarrow> cache_entry option" where
  "cache_lookup c now url =
     (case map_of (entries c) url of
        None \<Rightarrow> None
      | Some e \<Rightarrow> if now < stored_at e + ttl then Some e else None)"

definition get_video_info ::
  "string option \<Rightarrow> extractor \<Rightarrow> nat \<Rightarrow> string \<Rightarrow> cache_state
     \<Rightarrow> (video_info option \<times> ui_error list) \<times> cache_state" where
  "get_video_info FFMPEG_DIR extract_info now url c =
     (case cache_lookup c now url of
        Some e \<Rightarrow> ((cached_value e, cached_messages e), c)
      | None \<Rightarrow>
          (let r = get_video_info_body FFMPEG_DIR extract_info url
           in (r, \<lparr>entries = (url, \<lparr>cached_value = fst r, cached_messages = snd r,
                                   stored_at = now\<rparr>) # entries c,
                   engine_calls = Suc (engine_calls c)\<rparr>)))"

section \<open>Session state machine\<close>

text \<open>
  The keys of \<^verbatim>\<open>st.session_state\<close> that the script initialises, and the temporary
  directories made by the script that exist on the file system.
\<close>

record session_state =
  s_video_info :: "video_info option"
  s_downloaded_file :: "string option"
  s_download_ready :: bool
  s_tmp_dir :: "string option"
  s_last_url :: string

record app_state =
  session :: session_state
  dirs :: "string set"

definition init_state :: app_state where
  "init_state =
     \<lparr>session = \<lparr>s_video_info = None, s_downloaded_file = None, s_download_ready = False,
                  s_tmp_dir = None, s_last_url = []\<rparr>,
      dirs = {}\<rparr>"

text \<open>
  What the outside supplies to one run of the script: the text of the URL box, what
  \<^verbatim>\<open>get_video_info\<close> returns for it, whether the download button was clicked, the
  format and resolution chosen, the path that \<^verbatim>\<open>tempfile.mkdtemp\<close> returns, whether
  \<^verbatim>\<open>shutil.rmtree(old_dir, ignore_errors=True)\<close> removes the directory (with
  \<^verbatim>\<open>ignore_errors\<close> a failed removal is silent and leaves the directory), the run of
  the engine, and whether the returned path is a file.
\<close>

record run_input =
  in_url :: string
  in_info :: "video_info option"
  in_clicked :: bool
  in_audio :: bool
  in_resolution :: "string option"
  in_mkdtemp :: string
  in_rmtree_ok :: bool
  in_engine :: engine
  in_isfile :: bool

text \<open>\<^verbatim>\<open>_cleanup_temp\<close>\<close>

definition cleanup_temp :: "bool \<Rightarrow> app_state \<Rightarrow> app_state" where
  "cleanup_temp rmtree_ok s =
     \<lparr>session = (session s)\<lparr>s_tmp_dir := None, s_downloaded_file := None,
                              s_download_ready := False\<rparr>,
      dirs = (case s_tmp_dir (session s) of
                None \<Rightarrow> dirs s
              | Some old_dir \<Rightarrow>
                  if old_dir \<noteq> [] \<and> old_dir \<in> dirs s \<and> rmtree_ok
                  then dirs s - {old_dir} else dirs s)\<rparr>"

text \<open>The reset when the URL differs from \<^verbatim>\<open>last_url\<close>.\<close>

definition url_changed :: "run_input \<Rightarrow> app_state \<Rightarrow> app_state" where
  "url_changed i s =
     (if in_url i \<noteq> s_last_url (session s)
      then (let s' = cleanup_temp (in_rmtree_ok i) s
            in s'\<lparr>session := (session s')\<lparr>s_video_info := None, s_last_url := in_url i\<rparr>\<rparr>)
      else s)"

text \<open>
  The first statements of the button handler: the cleanup, then the fresh directory,
  recorded in the session. The state they leave is the one in which the download runs.
\<close>

definition start_download :: "run_input \<Rightarrow> app_state \<Rightarrow> app_state" where
  "start_download i s =
     (let s' = cleanup_temp (in_rmtree_ok i) s
      in \<lparr>session = (session s')\<lparr>s_tmp_dir := Some (in_mkdtemp i)\<rparr>,
          dirs = insert (in_mkdtemp i) (dirs s')\<rparr>)"

text \<open>The rest of the handler: the download into the directory and the record of its result.\<close>

definition finish_download :: "string option \<Rightarrow> run_input \<Rightarrow> app_state \<Rightarrow> app_state" where
  "finish_download FFMPEG_DIR i s =
     (case download_content FFMPEG_DIR (in_engine i) (in_url i)
             (if in_audio i then ''audio'' else ''video'') (in_resolution i) (in_mkdtemp i) of
        Inr file_path \<Rightarrow>
          if file_path \<noteq> [] \<and> in_isfile i
          then s\<lparr>session := (session s)\<lparr>s_downloaded_file := Some file_path,
                                         s_download_ready := True\<rparr>\<rparr>
          else s
      | Inl e \<Rightarrow> s)"

text \<open>One run of the script, from the session initialised by earlier runs.\<close>

definition run :: "string option \<Rightarrow> run_input \<Rightarrow> app_state \<Rightarrow> app_state" where
  "run FFMPEG_DIR i s =
     (let s1 = url_changed i s
      in if in_url i \<noteq> [] \<and> is_valid_youtube_url (in_url i)
         then (case in_info i of
                 None \<Rightarrow> s1
               | Some info \<Rightarrow>
                   (let s2 = s1\<lparr>session := (session s1)\<lparr>s_video_info := Some info\<rparr>\<rparr>
                    in if in_clicked i
                       then finish_download FFMPEG_DIR i (start_download i s2)
                       else s2))
         else s1)"

fun runs :: "string option \<Rightarrow> run_input list \<Rightarrow> app_state \<Rightarrow> app_state" where
  "runs FFMPEG_DIR [] s = s"
| "runs FFMPEG_DIR (i # is) s = runs FFMPEG_DIR is (run FFMPEG_DIR i s)"

text \<open>
  \<^verbatim>\<open>mkdtemp\<close> returns a path that is not empty and did not exist: the condition on a
  sequence of runs that every path it is given as new is new.
\<close>

fun mkdtemp_fresh :: "string option \<Rightarrow> run_input list \<Rightarrow> app_state \<Rightarrow> bool" where
  "mkdtemp_fresh FFMPEG_DIR [] s = True"
| "mkdtemp_fresh FFMPEG_DIR (i # is) s =
     (in_mkdtemp i \<noteq> [] \<and> in_mkdtemp i \<notin> dirs s
      \<and> mkdtemp_fresh FFMPEG_DIR is (run FFMPEG_DIR i s))"

text \<open>The directories that the session tracks: the value of \<^verbatim>\<open>tmp_dir\<close>, if any.\<close>

definition tracked :: "app_state \<Rightarrow> string set" where
  "tracked s = (case s_tmp_dir (session s) of None \<Rightarrow> {} | Some d \<Rightarrow> {d})"

text \<open>
  The invariant of the session: every temporary directory that exists is tracked, and no
  directory has the empty path.
\<close>

definition dirs_tracked :: "app_state \<Rightarrow> bool" where
  "dirs_tracked s = (dirs s \<subseteq> tracked s \<and> [] \<notin> dirs s)"

section \<open>Reading decimal text back\<close>

text \<open>
  The value of a string of decimal digits, used to show that the decimal text of a
  number determines the number.
\<close>

definition digit_val :: "char \<Rightarrow> nat" where
  "digit_val c = of_char c - 48"

definition nat_of_digits :: "string \<Rightarrow> nat" where
  "nat_of_digits s = foldl (\<lambda>a c. 10 * a + digit_val c) 0 s"

section \<open>The language of a pattern\<close>

text \<open>
  What a pattern matches, stated without reference to the matcher: \<^verbatim>\<open>lang r i w\<close>
  holds when the text \<^verbatim>\<open>w\<close>, placed at position \<^verbatim>\<open>i\<close> of the subject, is a
  match of \<^verbatim>\<open>r\<close>. The matcher is shown to list exactly the ends of such texts.
\<close>

primrec lang_iter :: "nat \<Rightarrow> (nat \<Rightarrow> string \<Rightarrow> bool) \<Rightarrow> nat \<Rightarrow> string \<Rightarrow> bool" where
  "lang_iter 0 L = (\<lambda>i w. w = [])"
| "lang_iter (Suc n) L = (\<lambda>i w. \<exists>u v. w = u @ v \<and> L i u \<and> lang_iter n L (i + length u) v)"

primrec lang :: "regex \<Rightarrow> nat \<Rightarrow> string \<Rightarrow> bool" where
  "lang Bol = (\<lambda>i w. i = 0 \<and> w = [])"
| "lang (Lit u) = (\<lambda>i w. w = u)"
| "lang (Bracket as) = (\<lambda>i w. \<exists>x. w = [x] \<and> list_ex (\<lambda>a. atom_matches a x) as)"
| "lang (Cat r1 r2) = (\<lambda>i w. \<exists>u v. w = u @ v \<and> lang r1 i u \<and> lang r2 (i + length u) v)"
| "lang (Alt r1 r2) = (\<lambda>i w. lang r1 i w \<or> lang r2 i w)"
| "lang (Opt r) = (\<lambda>i w. lang r i w \<or> w = [])"
| "lang (Rep r n) = lang_iter n (lang r)"

definition ends :: "(conf \<Rightarrow> conf list) \<Rightarrow> (nat \<Rightarrow> string \<Rightarrow> bool) \<Rightarrow> bool" where
  "ends m L = (\<forall>i s j t. (j, t) \<in> set (m (i, s)) \<longleftrightarrow> (\<exists>w. s = w @ t \<and> j = i + length w \<and> L i w))"

text \<open>\<^verbatim>\<open>_YT_REGEX\<close> without its anchor.\<close>

definition YT_BODY :: regex where
  "YT_BODY =
    (Cat (Opt (Cat (Lit ''http'') (Cat (Opt (Lit ''s'')) (Lit ''://''))))
    (Cat (Opt (Lit ''www.''))
    (Cat (Alt (Lit ''youtube.com/watch?v='')
         (Alt (Lit ''youtu.be/'')
              (Lit ''youtube.com/shorts/'')))
         (Rep (Bracket [Word, Ch CHR ''-'']) 11))))"

section \<open>Engines for the examples\<close>

text \<open>
  A behaviour of the engine on which the properties are instantiated: a run that returns
  and leaves the given listing.
\<close>

definition engine_leaves :: "string list \<Rightarrow> engine" where
  "engine_leaves files opts urls = Inr files"

text \<open>An extraction that raises.\<close>

definition extract_raises :: "engine_exn \<Rightarrow> extractor" where
  "extract_raises exc location url = Inl exc"

text \<open>The cache after one failed fetch into the empty cache at time 0.\<close>

definition after_failed_fetch :: cache_state where
  "after_failed_fetch =
     snd (get_video_info None (extract_raises (DownloadError ''Private video'')) 0
            ''https://youtu.be/dQw4w9WgXcQ'' \<lparr>entries = [], engine_calls = 0\<rparr>)"

text \<open>
  Two runs of the script on a valid link, each with a click on the download button. In
  the second the removal of the first directory fails.
\<close>

definition example_info :: video_info where
  "example_info =
     \<lparr>title = Some ''Clip'', thumbnail = Some [], formats = Some [], duration = Some 10,
      uploader = Some ''Unknown'', view_count = Some 0\<rparr>"

definition first_click :: run_input where
  "first_click =
     \<lparr>in_url = ''https://youtu.be/dQw4w9WgXcQ'', in_info = Some example_info,
      in_clicked = True, in_audio = True, in_resolution = None,
      in_mkdtemp = ''/tmp/ytdl_a'', in_rmtree_ok = True,
      in_engine = engine_leaves [''/tmp/ytdl_a/song.mp3''], in_isfile = True\<rparr>"

definition second_click :: "bool \<Rightarrow> run_input" where
  "second_click rmtree_ok =
     \<lparr>in_url = ''https://youtu.be/dQw4w9WgXcQ'', in_info = Some example_info,
      in_clicked = True, in_audio = True, in_resolution = None,
      in_mkdtemp = ''/tmp/ytdl_b'', in_rmtree_ok = rmtree_ok,
      in_engine = engine_leaves [''/tmp/ytdl_b/song.mp3''], in_isfile = True\<rparr>"

section \<open>Properties of the decimal text\<close>

lemma digit_val_digit_char: "d < 10 \<Longrightarrow> digit_val (digit_char d) = d"
  by (simp add: digit_val_def digit_char_def)

lemma nat_of_digits_str_nat: "nat_of_digits (str_nat n) = n"
proof (induction n rule: str_nat.induct)
  case (1 n)
  show ?case
  proof (cases "n < 10")
    case True
    then show ?thesis by (subst str_nat.simps) (simp add: nat_of_digits_def digit_val_digit_char)
  next
    case False
    with 1 have "nat_of_digits (str_nat (n div 10)) = n div 10" by simp
    with False show ?thesis
      by (subst str_nat.simps) (simp add: nat_of_digits_def digit_val_digit_char)
  qed
qed

lemma str_nat_inj: "str_nat m = str_nat n \<Longrightarrow> m = n"
  by (metis nat_of_digits_str_nat)

lemma of_char_digit_char: "d < 10 \<Longrightarrow> of_char (digit_char d) = (48 + d :: nat)"
  by (simp add: digit_char_def)

lemma str_nat_chars: "c \<in> set (str_nat n) \<Longrightarrow> 48 \<le> (of_char c :: nat) \<and> (of_char c :: nat) \<le> 57"
proof (induction n rule: str_nat.induct)
  case (1 n)
  show ?case
  proof (cases "n < 10")
    case True
    with "1.prems" have "c = digit_char n" by (subst (asm) str_nat.simps) simp
    with True show ?thesis by (simp add: of_char_digit_char)
  next
    case False
    with "1.prems" have "c \<in> set (str_nat (n div 10)) \<or> c = digit_char (n mod 10)"
      by (subst (asm) str_nat.simps) auto
    then show ?thesis
    proof
      assume "c \<in> set (str_nat (n div 10))"
      with 1 False show ?thesis by simp
    next
      assume "c = digit_char (n mod 10)"
      then show ?thesis by (simp add: of_char_digit_char)
    qed
  qed
qed

lemma str_nat_nonempty: "str_nat n \<noteq> []"
  by (subst str_nat.simps) simp

lemma minus_notin_str_nat: "CHR ''-'' \<notin> set (str_nat n)"
  using str_nat_chars [of "CHR ''-''" n] by auto

lemma str_int_inj: "str_int i = str_int j \<Longrightarrow> i = j"
proof -
  assume eq: "str_int i = str_int j"
  have hd_nat: "\<And>n. hd (str_nat n) \<noteq> CHR ''-''"
    using minus_notin_str_nat str_nat_nonempty by (metis hd_in_set)
  show ?thesis
  proof (cases "i < 0")
    case True
    show ?thesis
    proof (cases "j < 0")
      case jn: True
      with True eq have "str_nat (nat (- i)) = str_nat (nat (- j))"
        by (simp add: str_int_def)
      then have "nat (- i) = nat (- j)" by (rule str_nat_inj)
      with True jn show ?thesis by simp
    next
      case False
      with True eq have "CHR ''-'' # str_nat (nat (- i)) = str_nat (nat j)"
        by (simp add: str_int_def)
      then have "hd (str_nat (nat j)) = CHR ''-''" by (metis list.sel(1))
      with hd_nat show ?thesis by blast
    qed
  next
    case False
    show ?thesis
    proof (cases "j < 0")
      case True
      with False eq have "str_nat (nat i) = CHR ''-'' # str_nat (nat (- j))"
        by (simp add: str_int_def)
      then have "hd (str_nat (nat i)) = CHR ''-''" by (metis list.sel(1))
      with hd_nat show ?thesis by blast
    next
      case jp: False
      with False eq have "str_nat (nat i) = str_nat (nat j)"
        by (simp add: str_int_def)
      then have "nat i = nat j" by (rule str_nat_inj)
      with False jp show ?thesis by simp
    qed
  qed
qed

section \<open>Properties of the resolution resolver\<close>

lemma res_label_inj: "inj res_label"
  by (rule injI) (simp add: res_label_def str_int_inj)


lemma finite_collect_heights: "finite A \<Longrightarrow> finite (collect_heights A fs)"
  by (induction A fs rule: collect_heights.induct) (auto split: field.splits)

lemma collect_heights_eq:
  "collect_heights A fs =
     A \<union> {h. \<exists>f \<in> set fs. has_video_stream f \<and> has_height f \<and> height f = Present h}"
  by (induction A fs rule: collect_heights.induct)
     (auto simp: has_height_def split: field.splits)

lemma set_sorted_desc: "finite A \<Longrightarrow> set (sorted_desc A) = A"
  by (simp add: sorted_desc_def)

lemma sorted_desc_strict: "sorted_wrt (\<lambda>a b. a > b) (sorted_desc A)"
  unfolding sorted_desc_def
  by (simp add: sorted_wrt_rev strict_sorted_iff flip: strict_sorted_iff)


lemma distinct_sorted_desc: "distinct (sorted_desc A)"
  by (simp add: sorted_desc_def)

lemma collect_heights_empty:
  "collect_heights {} fs =
     {h. \<exists>f \<in> set fs. has_video_stream f \<and> has_height f \<and> height f = Present h}"
  by (simp add: collect_heights_eq)

lemma get_available_resolutions_example:
  "get_available_resolutions
     [\<lparr>vcodec = Present ''avc1'', height = Present 720\<rparr>,
      \<lparr>vcodec = Present ''avc1'', height = Present 480\<rparr>,
      \<lparr>vcodec = Present ''vp9'', height = Present 720\<rparr>,
      \<lparr>vcodec = Present ''avc1'', height = Null\<rparr>,
      \<lparr>vcodec = Present ''avc1'', height = Present 360\<rparr>,
      \<lparr>vcodec = Present ''none'', height = Null\<rparr>]
   = [''720p'', ''480p'', ''360p'']"
  by code_simp

lemma get_available_resolutions_no_video:
  "\<forall>f \<in> set fmts. \<not> has_video_stream f \<Longrightarrow> get_available_resolutions fmts = []"
  by (simp add: get_available_resolutions_def collect_heights_empty sorted_desc_def)

text \<open>
  Claim C1. For every list of format dictionaries, the labels returned by
  \<^verbatim>\<open>get_available_resolutions\<close> are pairwise different and are the texts
  \<^verbatim>\<open>"{h}p"\<close> of a strictly descending list of heights, whose elements are exactly the
  heights of the dictionaries that have a video stream and a height. Here a dictionary has a
  video stream when its \<^verbatim>\<open>vcodec\<close> is not the string \<^verbatim>\<open>"none"\<close>, and it has a
  height when \<^verbatim>\<open>fmt.get("height")\<close> is true, which is the test of the source. On the
  heights 720, 480, 720, None, 360 together with one audio-only dictionary the result is
  720p, 480p, 360p; on the empty list and on a list without video dictionaries it is empty.
\<close>

theorem get_available_resolutions_spec:
  "distinct (get_available_resolutions fmts)
   \<and> (\<exists>hs. get_available_resolutions fmts = map res_label hs
          \<and> sorted_wrt (\<lambda>a b. a > b) hs
          \<and> set hs = {h. \<exists>f \<in> set fmts.
                          has_video_stream f \<and> has_height f \<and> height f = Present h})
   \<and> get_available_resolutions
        [\<lparr>vcodec = Present ''avc1'', height = Present 720\<rparr>,
         \<lparr>vcodec = Present ''avc1'', height = Present 480\<rparr>,
         \<lparr>vcodec = Present ''vp9'', height = Present 720\<rparr>,
         \<lparr>vcodec = Present ''avc1'', height = Null\<rparr>,
         \<lparr>vcodec = Present ''avc1'', height = Present 360\<rparr>,
         \<lparr>vcodec = Present ''none'', height = Null\<rparr>]
       = [''720p'', ''480p'', ''360p'']
   \<and> get_available_resolutions [] = []
   \<and> ((\<forall>f \<in> set fmts. \<not> has_video_stream f) \<longrightarrow> get_available_resolutions fmts = [])"
proof -
  let ?H = "collect_heights {} fmts"
  have fin: "finite ?H" by (simp add: finite_collect_heights)
  have d: "distinct (get_available_resolutions fmts)"
    unfolding get_available_resolutions_def
    by (simp add: distinct_map distinct_sorted_desc inj_on_def res_label_def str_int_inj)
  have s: "set (sorted_desc ?H) = {h. \<exists>f \<in> set fmts.
             has_video_stream f \<and> has_height f \<and> height f = Present h}"
    using fin by (simp add: set_sorted_desc collect_heights_empty)
  have e: "\<exists>hs. get_available_resolutions fmts = map res_label hs
          \<and> sorted_wrt (\<lambda>a b. a > b) hs
          \<and> set hs = {h. \<exists>f \<in> set fmts.
                          has_video_stream f \<and> has_height f \<and> height f = Present h}"
    using s sorted_desc_strict [of ?H] unfolding get_available_resolutions_def by blast
  have n: "get_available_resolutions [] = []"
    by (simp add: get_available_resolutions_def sorted_desc_def)
  from d e n get_available_resolutions_example get_available_resolutions_no_video
  show ?thesis by blast
qed

theorem get_available_resolutions_spec_witness:
  "\<not> has_video_stream \<lparr>vcodec = Present ''none'', height = Null\<rparr>
   \<and> get_available_resolutions [\<lparr>vcodec = Present ''none'', height = Null\<rparr>] = []
   \<and> distinct (get_available_resolutions [\<lparr>vcodec = Present ''none'', height = Null\<rparr>])"
  using get_available_resolutions_spec [of "[\<lparr>vcodec = Present ''none'', height = Null\<rparr>]"]
  by (simp add: has_video_stream_def)

text \<open>
  Claim C10. A dictionary whose height is 0, even with a video codec, and a dictionary
  without the \<^verbatim>\<open>vcodec\<close> key fail the test of the loop, and the result is the same
  as if the dictionary were not in the list: neither contributes a label.
\<close>

theorem zero_height_or_missing_vcodec_ignored:
  "height fmt = Present 0 \<or> vcodec fmt = Missing \<Longrightarrow>
     (height fmt = Present 0 \<longrightarrow> \<not> has_height fmt)
     \<and> (vcodec fmt = Missing \<longrightarrow> \<not> has_video_stream fmt)
     \<and> get_available_resolutions [fmt] = []
     \<and> get_available_resolutions (pre @ fmt # post) = get_available_resolutions (pre @ post)"
proof -
  assume a: "height fmt = Present 0 \<or> vcodec fmt = Missing"
  then have g: "\<not> (has_video_stream fmt \<and> has_height fmt)"
    by (auto simp: has_video_stream_def has_height_def)
  then have "collect_heights {} (pre @ fmt # post) = collect_heights {} (pre @ post)"
    unfolding collect_heights_empty by auto
  moreover from g have "collect_heights {} [fmt] = {}"
    unfolding collect_heights_empty by auto
  moreover have "height fmt = Present 0 \<longrightarrow> \<not> has_height fmt"
    by (simp add: has_height_def)
  moreover have "vcodec fmt = Missing \<longrightarrow> \<not> has_video_stream fmt"
    by (simp add: has_video_stream_def)
  ultimately show ?thesis
    by (simp add: get_available_resolutions_def sorted_desc_def del: collect_heights.simps)
qed

theorem zero_height_or_missing_vcodec_ignored_witness:
  "height \<lparr>vcodec = Present ''avc1'', height = Present 0\<rparr> = Present 0
   \<and> get_available_resolutions [\<lparr>vcodec = Present ''avc1'', height = Present 0\<rparr>] = []
   \<and> vcodec \<lparr>vcodec = Missing, height = Present 1080\<rparr> = Missing
   \<and> get_available_resolutions [\<lparr>vcodec = Missing, height = Present 1080\<rparr>] = []"
  using zero_height_or_missing_vcodec_ignored
          [of "\<lparr>vcodec = Present ''avc1'', height = Present 0\<rparr>" "[]" "[]"]
        zero_height_or_missing_vcodec_ignored
          [of "\<lparr>vcodec = Missing, height = Present 1080\<rparr>" "[]" "[]"]
  by simp

section \<open>Properties of the URL validator\<close>

lemma ends_iter: "ends m L \<Longrightarrow> ends (iter n m) (lang_iter n L)"
proof (induction n)
  case 0
  then show ?case by (auto simp: ends_def)
next
  case (Suc n)
  from Suc.prems have m: "\<And>i s j t. (j, t) \<in> set (m (i, s)) \<longleftrightarrow> (\<exists>w. s = w @ t \<and> j = i + length w \<and> L i w)"
    by (simp add: ends_def)
  from Suc have n: "\<And>i s j t. (j, t) \<in> set (iter n m (i, s)) \<longleftrightarrow> (\<exists>w. s = w @ t \<and> j = i + length w \<and> lang_iter n L i w)"
    by (simp add: ends_def)
  show ?case
    unfolding ends_def
  proof (intro allI iffI)
    fix i s j t
    assume "(j, t) \<in> set (iter (Suc n) m (i, s))"
    then obtain k r where 1: "(k, r) \<in> set (m (i, s))" and 2: "(j, t) \<in> set (iter n m (k, r))"
      by auto
    from 1 m obtain u where u: "s = u @ r" "k = i + length u" "L i u" by blast
    from 2 n obtain v where v: "r = v @ t" "j = k + length v" "lang_iter n L k v" by blast
    from u v show "\<exists>w. s = w @ t \<and> j = i + length w \<and> lang_iter (Suc n) L i w"
      by (intro exI [of _ "u @ v"]) auto
  next
    fix i s j t
    assume "\<exists>w. s = w @ t \<and> j = i + length w \<and> lang_iter (Suc n) L i w"
    then obtain u v where w: "s = (u @ v) @ t" "j = i + length (u @ v)" "L i u" "lang_iter n L (i + length u) v"
      by auto
    from w m have 1: "(i + length u, v @ t) \<in> set (m (i, s))" by auto
    from w n have 2: "(j, t) \<in> set (iter n m (i + length u, v @ t))" by auto
    from 1 2 show "(j, t) \<in> set (iter (Suc n) m (i, s))" by auto
  qed
qed



lemma ends_Bol: "ends (rmatch Bol) (lang Bol)"
  unfolding ends_def by (simp split: if_splits) blast

lemma ends_Lit: "ends (rmatch (Lit w)) (lang (Lit w))"
  unfolding ends_def
proof (intro allI iffI)
  fix i s j t
  assume "(j, t) \<in> set (rmatch (Lit w) (i, s))"
  then have "take (length w) s = w" "j = i + length w" "t = drop (length w) s"
    by (simp_all split: if_splits)
  then have "s = w @ t \<and> j = i + length w \<and> lang (Lit w) i w"
    using append_take_drop_id [of "length w" s] by simp
  then show "\<exists>u. s = u @ t \<and> j = i + length u \<and> lang (Lit w) i u" by blast
next
  fix i s j t
  assume "\<exists>u. s = u @ t \<and> j = i + length u \<and> lang (Lit w) i u"
  then show "(j, t) \<in> set (rmatch (Lit w) (i, s))" by simp
qed

lemma ends_Bracket: "ends (rmatch (Bracket as)) (lang (Bracket as))"
  unfolding ends_def
proof (intro allI iffI)
  fix i s j t
  assume a: "(j, t) \<in> set (rmatch (Bracket as) (i, s))"
  then obtain x where "s = x # t" "list_ex (\<lambda>a. atom_matches a x) as" "j = Suc i"
    by (cases s) (simp_all split: if_splits)
  then have "s = [x] @ t \<and> j = i + length [x] \<and> lang (Bracket as) i [x]" by simp
  then show "\<exists>u. s = u @ t \<and> j = i + length u \<and> lang (Bracket as) i u" by blast
next
  fix i s j t
  assume "\<exists>u. s = u @ t \<and> j = i + length u \<and> lang (Bracket as) i u"
  then obtain x where "s = x # t" "j = Suc i" "list_ex (\<lambda>a. atom_matches a x) as"
    by auto
  then show "(j, t) \<in> set (rmatch (Bracket as) (i, s))" by simp
qed


lemma ends_Cat: "ends m1 L1 \<Longrightarrow> ends m2 L2 \<Longrightarrow>
  ends (\<lambda>c. concat (map m2 (m1 c))) (\<lambda>i w. \<exists>u v. w = u @ v \<and> L1 i u \<and> L2 (i + length u) v)"
proof -
  assume A: "ends m1 L1" and B: "ends m2 L2"
  from A have a: "\<And>i s j t. (j, t) \<in> set (m1 (i, s)) \<longleftrightarrow> (\<exists>w. s = w @ t \<and> j = i + length w \<and> L1 i w)"
    by (simp add: ends_def)
  from B have b: "\<And>i s j t. (j, t) \<in> set (m2 (i, s)) \<longleftrightarrow> (\<exists>w. s = w @ t \<and> j = i + length w \<and> L2 i w)"
    by (simp add: ends_def)
  show ?thesis
    unfolding ends_def
  proof (intro allI iffI)
    fix i s j t
    assume "(j, t) \<in> set (concat (map m2 (m1 (i, s))))"
    then obtain k r where 1: "(k, r) \<in> set (m1 (i, s))" and 2: "(j, t) \<in> set (m2 (k, r))"
      by auto
    from 1 a obtain u where u: "s = u @ r" "k = i + length u" "L1 i u" by blast
    from 2 b obtain v where v: "r = v @ t" "j = k + length v" "L2 k v" by blast
    from u v have "s = (u @ v) @ t \<and> j = i + length (u @ v) \<and> (\<exists>u' v'. u @ v = u' @ v' \<and> L1 i u' \<and> L2 (i + length u') v')"
      by auto
    then show "\<exists>w. s = w @ t \<and> j = i + length w \<and> (\<exists>u v. w = u @ v \<and> L1 i u \<and> L2 (i + length u) v)"
      by (rule exI)
  next
    fix i s j t
    assume "\<exists>w. s = w @ t \<and> j = i + length w \<and> (\<exists>u v. w = u @ v \<and> L1 i u \<and> L2 (i + length u) v)"
    then obtain u v where w: "s = (u @ v) @ t" "j = i + length (u @ v)" "L1 i u" "L2 (i + length u) v"
      by auto
    from w a have 1: "(i + length u, v @ t) \<in> set (m1 (i, s))" by auto
    from w b have 2: "(j, t) \<in> set (m2 (i + length u, v @ t))" by auto
    from 1 2 show "(j, t) \<in> set (concat (map m2 (m1 (i, s))))" by auto
  qed
qed

lemma ends_Alt: "ends m1 L1 \<Longrightarrow> ends m2 L2 \<Longrightarrow> ends (\<lambda>c. m1 c @ m2 c) (\<lambda>i w. L1 i w \<or> L2 i w)"
  unfolding ends_def by (simp only: set_append Un_iff) blast

lemma ends_Opt: "ends m L \<Longrightarrow> ends (\<lambda>c. m c @ [c]) (\<lambda>i w. L i w \<or> w = [])"
proof -
  assume A: "ends m L"
  then have a: "\<And>i s j t. (j, t) \<in> set (m (i, s)) \<longleftrightarrow> (\<exists>w. s = w @ t \<and> j = i + length w \<and> L i w)"
    by (simp add: ends_def)
  show ?thesis
    unfolding ends_def
  proof (intro allI iffI)
    fix i s j t
    assume "(j, t) \<in> set (m (i, s) @ [(i, s)])"
    then have "(j, t) \<in> set (m (i, s)) \<or> (j = i \<and> t = s)" by auto
    then show "\<exists>w. s = w @ t \<and> j = i + length w \<and> (L i w \<or> w = [])"
    proof
      assume "(j, t) \<in> set (m (i, s))"
      with a show ?thesis by blast
    next
      assume "j = i \<and> t = s"
      then have "s = [] @ t \<and> j = i + length ([] :: string) \<and> (L i [] \<or> ([] :: string) = [])" by simp
      then show ?thesis by (rule exI)
    qed
  next
    fix i s j t
    assume "\<exists>w. s = w @ t \<and> j = i + length w \<and> (L i w \<or> w = [])"
    then obtain w where w: "s = w @ t" "j = i + length w" "L i w \<or> w = []" by blast
    from w(3) show "(j, t) \<in> set (m (i, s) @ [(i, s)])"
    proof
      assume "L i w"
      with w a have "(j, t) \<in> set (m (i, s))" by blast
      then show ?thesis by simp
    next
      assume "w = []"
      with w show ?thesis by simp
    qed
  qed
qed

lemma ends_rmatch: "ends (rmatch r) (lang r)"
proof (induction r)
  case Bol
  show ?case by (rule ends_Bol)
next
  case (Lit w)
  show ?case by (rule ends_Lit)
next
  case (Bracket as)
  show ?case by (rule ends_Bracket)
next
  case (Cat r1 r2)
  then show ?case by (simp add: ends_Cat)
next
  case (Alt r1 r2)
  then show ?case by (simp add: ends_Alt)
next
  case (Opt r)
  then show ?case by (simp add: ends_Opt)
next
  case (Rep r n)
  then show ?case by (simp add: ends_iter)
qed


lemma rmatch_nonempty_iff:
  "rmatch r (i, s) \<noteq> [] \<longleftrightarrow> (\<exists>w t. s = w @ t \<and> lang r i w)"
proof -
  have e: "\<And>j t. (j, t) \<in> set (rmatch r (i, s)) \<longleftrightarrow> (\<exists>w. s = w @ t \<and> j = i + length w \<and> lang r i w)"
    using ends_rmatch [of r] by (simp add: ends_def)
  show ?thesis
  proof
    assume "rmatch r (i, s) \<noteq> []"
    then obtain j t where "(j, t) \<in> set (rmatch r (i, s))"
      by (cases "rmatch r (i, s)") auto
    with e show "\<exists>w t. s = w @ t \<and> lang r i w" by blast
  next
    assume "\<exists>w t. s = w @ t \<and> lang r i w"
    then obtain w t where "s = w @ t" "lang r i w" by blast
    with e have "(i + length w, t) \<in> set (rmatch r (i, s))" by blast
    then show "rmatch r (i, s) \<noteq> []" by auto
  qed
qed

lemma re_search_Bol: "re_search (Cat Bol r) s = (rmatch r (0, s) \<noteq> [])"
proof -
  have "\<And>k. rmatch (Cat Bol r) (k, drop k s) = (if k = 0 then rmatch r (0, s) else [])"
    by simp
  then have "re_search (Cat Bol r) s =
      list_ex (\<lambda>k. (if k = 0 then rmatch r (0, s) else []) \<noteq> []) [0 ..< Suc (length s)]"
    unfolding re_search_def by simp
  also have "\<dots> = (rmatch r (0, s) \<noteq> [])"
    by (auto simp: list_ex_iff)
  finally show ?thesis .
qed

lemma lang_iter_Bracket:
  "lang_iter n (lang (Bracket as)) i w
     \<longleftrightarrow> length w = n \<and> list_all (\<lambda>x. list_ex (\<lambda>a. atom_matches a x) as) w"
proof (induction n arbitrary: i w)
  case 0
  show ?case by auto
next
  case (Suc n)
  show ?case
  proof (cases w)
    case Nil
    then show ?thesis by simp
  next
    case (Cons x t)
    have "lang_iter (Suc n) (lang (Bracket as)) i (x # t)
        \<longleftrightarrow> list_ex (\<lambda>a. atom_matches a x) as \<and> lang_iter n (lang (Bracket as)) (Suc i) t"
    proof
      assume "lang_iter (Suc n) (lang (Bracket as)) i (x # t)"
      then obtain u v where uv: "x # t = u @ v" "lang (Bracket as) i u"
          "lang_iter n (lang (Bracket as)) (i + length u) v"
        by auto
      from uv(2) obtain y where y: "u = [y]" "list_ex (\<lambda>a. atom_matches a y) as" by auto
      with uv(1) have "y = x" "v = t" by simp_all
      with y uv(3) show "list_ex (\<lambda>a. atom_matches a x) as \<and> lang_iter n (lang (Bracket as)) (Suc i) t"
        by simp
    next
      assume a: "list_ex (\<lambda>a. atom_matches a x) as \<and> lang_iter n (lang (Bracket as)) (Suc i) t"
      then have "x # t = [x] @ t \<and> lang (Bracket as) i [x]
          \<and> lang_iter n (lang (Bracket as)) (i + length [x]) t"
        by simp
      then show "lang_iter (Suc n) (lang (Bracket as)) i (x # t)"
        unfolding lang_iter.simps by blast
    qed
    with Suc Cons show ?thesis by auto
  qed
qed

lemma lang_scheme:
  "lang (Opt (Cat (Lit ''http'') (Cat (Opt (Lit ''s'')) (Lit ''://'')))) i u
     \<longleftrightarrow> u \<in> {[], ''http://'', ''https://''}"
  by auto

lemma lang_www: "lang (Opt (Lit ''www.'')) i u \<longleftrightarrow> u \<in> {[], ''www.''}"
  by auto

lemma lang_path:
  "lang (Alt (Lit ''youtube.com/watch?v='') (Alt (Lit ''youtu.be/'') (Lit ''youtube.com/shorts/''))) i u
     \<longleftrightarrow> u \<in> {''youtube.com/watch?v='', ''youtu.be/'', ''youtube.com/shorts/''}"
  by auto

lemma lang_ident:
  "lang (Rep (Bracket [Word, Ch CHR ''-'']) 11) i u \<longleftrightarrow> length u = 11 \<and> list_all ident_char u"
proof -
  have "lang (Rep (Bracket [Word, Ch CHR ''-'']) 11) i u
      = lang_iter 11 (lang (Bracket [Word, Ch CHR ''-''])) i u"
    by (simp only: lang.simps)
  also have "\<dots> \<longleftrightarrow> length u = 11
      \<and> list_all (\<lambda>x. list_ex (\<lambda>a. atom_matches a x) [Word, Ch CHR ''-'']) u"
    by (rule lang_iter_Bracket)
  also have "\<dots> \<longleftrightarrow> length u = 11 \<and> list_all ident_char u"
    by (simp add: ident_char_def [abs_def])
  finally show ?thesis .
qed

lemma lang_Cat: "lang (Cat r1 r2) i w \<longleftrightarrow> (\<exists>u v. w = u @ v \<and> lang r1 i u \<and> lang r2 (i + length u) v)"
  by simp

lemma lang_YT_BODY: "lang YT_BODY i w = canonical_shape w"
proof
  assume "lang YT_BODY i w"
  then obtain a r1 where 1: "w = a @ r1" "a \<in> {[], ''http://'', ''https://''}"
      and r1: "lang (Cat (Opt (Lit ''www.''))
                (Cat (Alt (Lit ''youtube.com/watch?v='') (Alt (Lit ''youtu.be/'') (Lit ''youtube.com/shorts/'')))
                     (Rep (Bracket [Word, Ch CHR ''-'']) 11))) (i + length a) r1"
    unfolding YT_BODY_def lang_Cat [of "Opt (Cat (Lit ''http'') (Cat (Opt (Lit ''s'')) (Lit ''://'')))"] lang_scheme
    by blast
  from r1 obtain b r2 where 2: "r1 = b @ r2" "b \<in> {[], ''www.''}"
      and r2: "lang (Cat (Alt (Lit ''youtube.com/watch?v='') (Alt (Lit ''youtu.be/'') (Lit ''youtube.com/shorts/'')))
                     (Rep (Bracket [Word, Ch CHR ''-'']) 11)) (i + length a + length b) r2"
    unfolding lang_Cat [of "Opt (Lit ''www.'')"] lang_www by blast
  from r2 obtain c d where 3: "r2 = c @ d"
      "c \<in> {''youtube.com/watch?v='', ''youtu.be/'', ''youtube.com/shorts/''}"
      "length d = 11 \<and> list_all ident_char d"
    unfolding lang_Cat [of "Alt (Lit ''youtube.com/watch?v='') (Alt (Lit ''youtu.be/'') (Lit ''youtube.com/shorts/''))"]
      lang_path lang_ident by blast
  from 1 2 3 have "w = a @ b @ c @ d" by simp
  with 1 2 3 show "canonical_shape w" unfolding canonical_shape_def by blast
next
  assume "canonical_shape w"
  then obtain a b c d where w: "w = a @ b @ c @ d" "a \<in> {[], ''http://'', ''https://''}"
      "b \<in> {[], ''www.''}" "c \<in> {''youtube.com/watch?v='', ''youtu.be/'', ''youtube.com/shorts/''}"
      "length d = 11 \<and> list_all ident_char d"
    unfolding canonical_shape_def by blast
  have r2: "lang (Cat (Alt (Lit ''youtube.com/watch?v='') (Alt (Lit ''youtu.be/'') (Lit ''youtube.com/shorts/'')))
                     (Rep (Bracket [Word, Ch CHR ''-'']) 11)) (i + length a + length b) (c @ d)"
    unfolding lang_Cat [of "Alt (Lit ''youtube.com/watch?v='') (Alt (Lit ''youtu.be/'') (Lit ''youtube.com/shorts/''))"]
      lang_path lang_ident using w(4,5) by blast
  have r1: "lang (Cat (Opt (Lit ''www.''))
                (Cat (Alt (Lit ''youtube.com/watch?v='') (Alt (Lit ''youtu.be/'') (Lit ''youtube.com/shorts/'')))
                     (Rep (Bracket [Word, Ch CHR ''-'']) 11))) (i + length a) (b @ c @ d)"
    unfolding lang_Cat [of "Opt (Lit ''www.'')"] lang_www using w(3) r2 by blast
  show "lang YT_BODY i w"
    unfolding YT_BODY_def lang_Cat [of "Opt (Cat (Lit ''http'') (Cat (Opt (Lit ''s'')) (Lit ''://'')))"] lang_scheme
    using w(1,2) r1 by blast
qed

lemma dropWhile_snoc_keeps_last:
  "\<not> P x \<Longrightarrow> \<exists>t. dropWhile P (ys @ [x]) = t @ [x]"
  by (induction ys) auto

lemma strip_strip: "strip (strip s) = strip s"
proof (cases "dropWhile py_isspace s")
  case Nil
  have e: "strip s = []" unfolding strip_def Nil by simp
  have n: "strip [] = []" by (simp add: strip_def)
  show ?thesis by (simp only: e n)
next
  case (Cons x xs)
  then have nx: "\<not> py_isspace x"
    using hd_dropWhile [of py_isspace s] by simp
  let ?t = "dropWhile py_isspace (rev (dropWhile py_isspace s))"
  from Cons have "?t = dropWhile py_isspace (rev xs @ [x])" by simp
  with nx obtain t' where t: "?t = t' @ [x]"
    using dropWhile_snoc_keeps_last [of py_isspace x "rev xs"] by auto
  then have "rev ?t = x # rev t'" by simp
  with nx have 1: "dropWhile py_isspace (rev ?t) = rev ?t" by simp
  have 2: "dropWhile py_isspace ?t = ?t" by (rule dropWhile_idem)
  have "strip (strip s) = rev (dropWhile py_isspace (rev (dropWhile py_isspace (rev ?t))))"
    by (simp only: strip_def)
  also have "\<dots> = rev (dropWhile py_isspace (rev (rev ?t)))" by (simp only: 1)
  also have "\<dots> = rev ?t" by (simp only: rev_rev_ident 2)
  finally show ?thesis by (simp only: strip_def)
qed

lemma is_valid_iff: "is_valid_youtube_url u = begins_with_shape (strip u)"
proof -
  have r: "YT_REGEX = Cat Bol YT_BODY" by (simp add: YT_REGEX_def YT_BODY_def)
  have "is_valid_youtube_url u = (rmatch YT_BODY (0, strip u) \<noteq> [])"
    by (simp only: is_valid_youtube_url_def r re_search_Bol)
  also have "\<dots> = (\<exists>w t. strip u = w @ t \<and> lang YT_BODY 0 w)"
    by (rule rmatch_nonempty_iff)
  also have "\<dots> = begins_with_shape (strip u)"
    by (simp add: lang_YT_BODY begins_with_shape_def)
  finally show ?thesis .
qed

lemma not_begins_space: "\<not> begins_with_shape (CHR '' '' # s)"
proof
  assume "begins_with_shape (CHR '' '' # s)"
  then obtain p r where p: "CHR '' '' # s = p @ r" "canonical_shape p"
    by (auto simp: begins_with_shape_def)
  from p(2) obtain a b c d where w: "p = a @ b @ c @ d" "a \<in> {[], ''http://'', ''https://''}"
      "b \<in> {[], ''www.''}" "c \<in> {''youtube.com/watch?v='', ''youtu.be/'', ''youtube.com/shorts/''}"
      "length d = 11 \<and> list_all ident_char d"
    unfolding canonical_shape_def by blast
  from w have "hd p \<in> {CHR ''h'', CHR ''w'', CHR ''y''}" "p \<noteq> []" by auto
  with p(1) show False by (cases p) auto
qed

lemma strip_padding:
  assumes "list_all py_isspace pre" and "list_all py_isspace post"
  shows "strip (pre @ u @ post) = strip u"
proof -
  from assms(1) have 1: "dropWhile py_isspace (pre @ u @ post) = dropWhile py_isspace (u @ post)"
    by (simp add: list_all_iff dropWhile_append2)
  from assms(2) have post: "\<And>x. x \<in> set (rev post) \<Longrightarrow> py_isspace x"
    by (simp add: list_all_iff)
  show ?thesis
  proof (cases "dropWhile py_isspace u = []")
    case True
    then have "\<forall>x \<in> set u. py_isspace x" by (simp add: dropWhile_eq_Nil_conv)
    with assms(2) have a: "dropWhile py_isspace (u @ post) = []"
      by (auto simp: list_all_iff dropWhile_eq_Nil_conv)
    show ?thesis unfolding strip_def 1 a True by simp
  next
    case False
    then obtain x where "x \<in> set u" "\<not> py_isspace x"
      by (auto simp: dropWhile_eq_Nil_conv)
    then have "dropWhile py_isspace (u @ post) = dropWhile py_isspace u @ post"
      by (simp add: dropWhile_append1)
    with 1 have "rev (dropWhile py_isspace (pre @ u @ post)) = rev post @ rev (dropWhile py_isspace u)"
      by simp
    moreover have "dropWhile py_isspace (rev post @ rev (dropWhile py_isspace u))
        = dropWhile py_isspace (rev (dropWhile py_isspace u))"
      using post by (rule dropWhile_append2)
    ultimately have "dropWhile py_isspace (rev (dropWhile py_isspace (pre @ u @ post)))
        = dropWhile py_isspace (rev (dropWhile py_isspace u))"
      by (simp only:)
    then show ?thesis by (simp add: strip_def)
  qed
qed

text \<open>
  Claim C2, as stated, fails. The string made of a space followed by
  \<^verbatim>\<open>youtu.be/abcdefghijk\<close> does not have the canonical shape, and does not even begin
  with it, since its first character is a space; the validator strips the space and
  accepts the string.
\<close>

theorem padded_link_accepted:
  "\<not> canonical_shape '' youtu.be/abcdefghijk''
   \<and> \<not> begins_with_shape '' youtu.be/abcdefghijk''
   \<and> is_valid_youtube_url '' youtu.be/abcdefghijk''"
proof -
  have 1: "\<not> begins_with_shape '' youtu.be/abcdefghijk''" by (rule not_begins_space)
  then have 2: "\<not> canonical_shape '' youtu.be/abcdefghijk''"
    unfolding begins_with_shape_def by (metis append_Nil2)
  have 3: "is_valid_youtube_url '' youtu.be/abcdefghijk''" by code_simp
  from 1 2 3 show ?thesis by blast
qed

text \<open>
  Claim C2, amended. The validator returns true exactly for the strings that, once the
  surrounding whitespace is removed, begin with the canonical shape; so it returns false
  for every string whose stripped form does not begin with that shape, the empty string
  and a link with a malformed host among them, and it returns true for a watch link, a
  short link and a shorts link with an identifier of 11 characters.
\<close>

theorem is_valid_youtube_url_shape:
  "is_valid_youtube_url u = begins_with_shape (strip u)
   \<and> \<not> is_valid_youtube_url []
   \<and> \<not> is_valid_youtube_url ''https://www.youtub.com/watch?v=dQw4w9WgXcQ''
   \<and> is_valid_youtube_url ''https://www.youtube.com/watch?v=dQw4w9WgXcQ''
   \<and> is_valid_youtube_url ''https://youtu.be/dQw4w9WgXcQ''
   \<and> is_valid_youtube_url ''https://www.youtube.com/shorts/dQw4w9WgXcQ''"
proof -
  have 1: "\<not> is_valid_youtube_url []" by code_simp
  have 2: "\<not> is_valid_youtube_url ''https://www.youtub.com/watch?v=dQw4w9WgXcQ''" by code_simp
  have 3: "is_valid_youtube_url ''https://www.youtube.com/watch?v=dQw4w9WgXcQ''" by code_simp
  have 4: "is_valid_youtube_url ''https://youtu.be/dQw4w9WgXcQ''" by code_simp
  have 5: "is_valid_youtube_url ''https://www.youtube.com/shorts/dQw4w9WgXcQ''" by code_simp
  from is_valid_iff [of u] 1 2 3 4 5 show ?thesis by blast
qed

text \<open>
  Claim C9. The validator gives the same answer on a string and on the string with its
  surrounding whitespace stripped; hence whitespace put before and after a string does
  not change the answer, and a valid link padded with spaces or newlines is accepted.
\<close>

theorem is_valid_youtube_url_strip:
  "is_valid_youtube_url u = is_valid_youtube_url (strip u)
   \<and> (list_all py_isspace pre \<and> list_all py_isspace post \<longrightarrow>
        is_valid_youtube_url (pre @ u @ post) = is_valid_youtube_url u)"
  by (simp add: is_valid_youtube_url_def strip_strip strip_padding)

theorem is_valid_youtube_url_strip_witness:
  "list_all py_isspace ''  '' \<and> list_all py_isspace [CHR 0x0A, CHR '' '']
   \<and> is_valid_youtube_url (''  '' @ ''https://youtu.be/dQw4w9WgXcQ'' @ [CHR 0x0A, CHR '' ''])"
proof -
  have 1: "list_all py_isspace ''  ''" by code_simp
  have 2: "list_all py_isspace [CHR 0x0A, CHR '' '']" by code_simp
  have 3: "is_valid_youtube_url ''https://youtu.be/dQw4w9WgXcQ''" by code_simp
  from 1 2 3
    is_valid_youtube_url_strip [of "''https://youtu.be/dQw4w9WgXcQ''" "''  ''" "[CHR 0x0A, CHR '' '']"]
  show ?thesis by blast
qed

section \<open>Properties of the division of integers\<close>








section \<open>Properties of the download orchestrator\<close>

lemma format_with_ffmpeg [simp]: "format (with_ffmpeg F opts) = format opts"
  by (simp add: with_ffmpeg_def split: option.splits)

lemma postprocessors_with_ffmpeg [simp]: "postprocessors (with_ffmpeg F opts) = postprocessors opts"
  by (simp add: with_ffmpeg_def split: option.splits)

lemma merge_output_format_with_ffmpeg [simp]:
  "merge_output_format (with_ffmpeg F opts) = merge_output_format opts"
  by (simp add: with_ffmpeg_def split: option.splits)









lemma res_label_nonempty: "res_label h \<noteq> []"
  by (simp add: res_label_def)




text \<open>
  Claim C8. For every audio request the format expression is \<^verbatim>\<open>bestaudio/best\<close>, the
  only post-processor extracts the audio to mp3 at quality 192, and when the engine
  returns with one file in the target directory, the download returns the path of that
  file.
\<close>

theorem audio_download:
  "format (download_opts FFMPEG_DIR ''audio'' resolution tmp_dir) = ''bestaudio/best''
   \<and> postprocessors (download_opts FFMPEG_DIR ''audio'' resolution tmp_dir)
       = Some [\<lparr>key = ''FFmpegExtractAudio'', preferredcodec = ''mp3'', preferredquality = ''192''\<rparr>]
   \<and> merge_output_format (download_opts FFMPEG_DIR ''audio'' resolution tmp_dir) = None
   \<and> (ydl (download_opts FFMPEG_DIR ''audio'' resolution tmp_dir) [url] = Inr [f] \<longrightarrow>
        download_content FFMPEG_DIR ydl url ''audio'' resolution tmp_dir = Inr f)"
  by (simp add: download_opts_def download_content_def)

theorem audio_download_witness:
  "download_content None (engine_leaves [''/tmp/ytdl_a/song.mp3''])
     ''https://youtu.be/dQw4w9WgXcQ'' ''audio'' None ''/tmp/ytdl_a'' = Inr ''/tmp/ytdl_a/song.mp3''"
  using audio_download [of None None "''/tmp/ytdl_a''" "engine_leaves [''/tmp/ytdl_a/song.mp3'']"
      "''https://youtu.be/dQw4w9WgXcQ''" "''/tmp/ytdl_a/song.mp3''"]
  by (simp add: engine_leaves_def)

text \<open>
  Claim C5. When the engine returns without error: with exactly one entry in the target
  directory the download returns its path; with an empty directory it shows that the
  download succeeded but no output file was found, and returns no path; with several
  entries it returns the first entry of the listing.
\<close>

theorem download_content_output_file:
  "(ydl (download_opts FFMPEG_DIR fmt resolution tmp_dir) [url] = Inr [f] \<longrightarrow>
      download_content FFMPEG_DIR ydl url fmt resolution tmp_dir = Inr f)
   \<and> (ydl (download_opts FFMPEG_DIR fmt resolution tmp_dir) [url] = Inr [] \<longrightarrow>
      download_content FFMPEG_DIR ydl url fmt resolution tmp_dir = Inl No_output_file)
   \<and> error_text No_output_file = ''Download succeeded but no output file was found.''
   \<and> (ydl (download_opts FFMPEG_DIR fmt resolution tmp_dir) [url] = Inr (f # g # rest) \<longrightarrow>
      download_content FFMPEG_DIR ydl url fmt resolution tmp_dir = Inr f)"
  by (simp add: download_content_def)

theorem download_content_output_file_witness:
  "download_content None (engine_leaves [''/tmp/ytdl_a/clip.mp4''])
     ''https://youtu.be/dQw4w9WgXcQ'' ''video'' (Some ''480p'') ''/tmp/ytdl_a'' = Inr ''/tmp/ytdl_a/clip.mp4''
   \<and> download_content None (engine_leaves [])
     ''https://youtu.be/dQw4w9WgXcQ'' ''video'' (Some ''480p'') ''/tmp/ytdl_a'' = Inl No_output_file
   \<and> download_content None (engine_leaves [''/tmp/ytdl_a/clip.f137.mp4'', ''/tmp/ytdl_a/clip.mp4''])
     ''https://youtu.be/dQw4w9WgXcQ'' ''video'' (Some ''480p'') ''/tmp/ytdl_a'' = Inr ''/tmp/ytdl_a/clip.f137.mp4''"
  using
    download_content_output_file [of "engine_leaves [''/tmp/ytdl_a/clip.mp4'']" None "''video''"
      "Some ''480p''" "''/tmp/ytdl_a''" "''https://youtu.be/dQw4w9WgXcQ''" "''/tmp/ytdl_a/clip.mp4''"]
    download_content_output_file [of "engine_leaves []" None "''video''"
      "Some ''480p''" "''/tmp/ytdl_a''" "''https://youtu.be/dQw4w9WgXcQ''"]
    download_content_output_file [of "engine_leaves [''/tmp/ytdl_a/clip.f137.mp4'', ''/tmp/ytdl_a/clip.mp4'']" None "''video''"
      "Some ''480p''" "''/tmp/ytdl_a''" "''https://youtu.be/dQw4w9WgXcQ''" "''/tmp/ytdl_a/clip.f137.mp4''" "''/tmp/ytdl_a/clip.mp4''" "[]"]
  by (simp add: engine_leaves_def)










section \<open>Properties of the metadata cache\<close>

text \<open>
  Claim C7, as stated, fails in its second half. A fetch that fails into the empty cache
  returns the failure with its message, and the cache then holds an entry for the URL
  with that result; a second call one second later returns the entry and leaves the
  count of engine calls at 1.
\<close>

theorem failure_is_cached:
  "get_video_info None (extract_raises (DownloadError ''Private video'')) 0
       ''https://youtu.be/dQw4w9WgXcQ'' \<lparr>entries = [], engine_calls = 0\<rparr>
     = ((None, [Could_not_fetch_info ''Private video'']), after_failed_fetch)
   \<and> map_of (entries after_failed_fetch) ''https://youtu.be/dQw4w9WgXcQ''
       = Some \<lparr>cached_value = None, cached_messages = [Could_not_fetch_info ''Private video''],
               stored_at = 0\<rparr>
   \<and> engine_calls after_failed_fetch = 1
   \<and> get_video_info None (extract_raises (DownloadError ''Private video'')) 1
       ''https://youtu.be/dQw4w9WgXcQ'' after_failed_fetch
     = ((None, [Could_not_fetch_info ''Private video'']), after_failed_fetch)"
  by (simp add: after_failed_fetch_def get_video_info_def cache_lookup_def
      get_video_info_body_def extract_raises_def ttl_def)

text \<open>
  Claim C7, amended. When the cache has no live entry for the URL and the extraction
  raises, \<^verbatim>\<open>get_video_info\<close> returns \<^verbatim>\<open>None\<close> and shows a message that carries the
  text of the exception. The function has then returned normally, so the result is stored
  like any other: a later call for the same URL less than 600 seconds after the failure
  returns the same failure and does not call the engine, whatever the engine would do;
  a call 600 seconds after the failure or later calls the engine again.
\<close>

theorem get_video_info_failure:
  "cache_lookup c now url = None \<and> extract_info (ffmpeg_option FFMPEG_DIR) url = Inl exc \<longrightarrow>
     get_video_info FFMPEG_DIR extract_info now url c
       = ((None, [info_failure exc]),
          \<lparr>entries = (url, \<lparr>cached_value = None, cached_messages = [info_failure exc],
                             stored_at = now\<rparr>) # entries c,
           engine_calls = Suc (engine_calls c)\<rparr>)
     \<and> (later < now + 600 \<longrightarrow>
          get_video_info FFMPEG_DIR extract_info' later url
            \<lparr>entries = (url, \<lparr>cached_value = None, cached_messages = [info_failure exc],
                               stored_at = now\<rparr>) # entries c,
             engine_calls = Suc (engine_calls c)\<rparr>
          = ((None, [info_failure exc]),
             \<lparr>entries = (url, \<lparr>cached_value = None, cached_messages = [info_failure exc],
                                stored_at = now\<rparr>) # entries c,
              engine_calls = Suc (engine_calls c)\<rparr>))
     \<and> (now + 600 \<le> later \<longrightarrow>
          engine_calls (snd (get_video_info FFMPEG_DIR extract_info' later url
            \<lparr>entries = (url, \<lparr>cached_value = None, cached_messages = [info_failure exc],
                               stored_at = now\<rparr>) # entries c,
             engine_calls = Suc (engine_calls c)\<rparr>))
          = Suc (Suc (engine_calls c)))"
  by (simp add: get_video_info_def cache_lookup_def get_video_info_body_def ttl_def Let_def)

theorem get_video_info_failure_witness:
  "get_video_info None (extract_raises (OtherException ''timed out'')) 5
       ''https://youtu.be/dQw4w9WgXcQ'' \<lparr>entries = [], engine_calls = 0\<rparr>
     = ((None, [Unexpected_info_error ''timed out'']),
        \<lparr>entries = [(''https://youtu.be/dQw4w9WgXcQ'',
                      \<lparr>cached_value = None, cached_messages = [Unexpected_info_error ''timed out''],
                        stored_at = 5\<rparr>)],
         engine_calls = 1\<rparr>)
   \<and> error_text (Unexpected_info_error ''timed out'') = ''An unexpected error occurred: timed out''"
  using get_video_info_failure [of "\<lparr>entries = [], engine_calls = 0\<rparr>" 5
      "''https://youtu.be/dQw4w9WgXcQ''" "extract_raises (OtherException ''timed out'')" None
      "OtherException ''timed out''" 5]
  by (simp add: cache_lookup_def extract_raises_def)

section \<open>Properties of the session state machine\<close>

lemma valid_example: "is_valid_youtube_url ''https://youtu.be/dQw4w9WgXcQ''"
  by code_simp

lemma run_first_click:
  "run None first_click init_state =
      \<lparr>session = \<lparr>s_video_info = Some example_info, s_downloaded_file = Some ''/tmp/ytdl_a/song.mp3'',
                   s_download_ready = True, s_tmp_dir = Some ''/tmp/ytdl_a'',
                   s_last_url = ''https://youtu.be/dQw4w9WgXcQ''\<rparr>,
       dirs = {''/tmp/ytdl_a''}\<rparr>"
  using valid_example
  by (simp add: run_def first_click_def init_state_def url_changed_def cleanup_temp_def
      start_download_def finish_download_def download_content_def engine_leaves_def)

text \<open>
  Claim C6, as stated, fails. The removal is \<^verbatim>\<open>shutil.rmtree(old_dir, ignore_errors=True)\<close>:
  a removal that fails is silent and leaves the directory. After two clicks on the
  download button, the second with a failed removal, two temporary directories exist.
\<close>

theorem two_temp_dirs:
  "mkdtemp_fresh None [first_click, second_click False] init_state
   \<and> dirs (runs None [first_click, second_click False] init_state) = {''/tmp/ytdl_a'', ''/tmp/ytdl_b''}
   \<and> card (dirs (runs None [first_click, second_click False] init_state)) = 2"
proof -
  note 1 = run_first_click
  have 2: "run None (second_click False) (run None first_click init_state) =
      \<lparr>session = \<lparr>s_video_info = Some example_info, s_downloaded_file = Some ''/tmp/ytdl_b/song.mp3'',
                   s_download_ready = True, s_tmp_dir = Some ''/tmp/ytdl_b'',
                   s_last_url = ''https://youtu.be/dQw4w9WgXcQ''\<rparr>,
       dirs = {''/tmp/ytdl_b'', ''/tmp/ytdl_a''}\<rparr>"
    unfolding 1 using valid_example
    by (simp add: run_def second_click_def url_changed_def cleanup_temp_def
        start_download_def finish_download_def download_content_def engine_leaves_def)
  have 3: "mkdtemp_fresh None [first_click, second_click False] init_state"
    by (simp add: 1) (simp add: first_click_def second_click_def init_state_def)
  have 4: "dirs (runs None [first_click, second_click False] init_state) = {''/tmp/ytdl_a'', ''/tmp/ytdl_b''}"
    by (auto simp: 2)
  from 3 4 show ?thesis by simp
qed


lemma cleanup_temp_removes:
  "dirs_tracked s \<Longrightarrow> dirs (cleanup_temp True s) = {} \<and> tracked (cleanup_temp True s) = {}"
  by (cases "s_tmp_dir (session s)")
     (auto simp: dirs_tracked_def tracked_def cleanup_temp_def)

lemma url_changed_tracked:
  "dirs_tracked s \<Longrightarrow> in_rmtree_ok i \<Longrightarrow> dirs_tracked (url_changed i s)"
  using cleanup_temp_removes [of s]
  by (auto simp: url_changed_def dirs_tracked_def tracked_def Let_def)

lemma url_changed_removes:
  "dirs_tracked s \<Longrightarrow> in_rmtree_ok i \<Longrightarrow> in_url i \<noteq> s_last_url (session s) \<Longrightarrow>
     dirs (url_changed i s) = {}"
  using cleanup_temp_removes [of s]
  by (auto simp: url_changed_def Let_def)

lemma start_download_fresh:
  "dirs_tracked s \<Longrightarrow> in_rmtree_ok i \<Longrightarrow>
     dirs (start_download i s) = {in_mkdtemp i} \<and> tracked (start_download i s) = {in_mkdtemp i}"
  using cleanup_temp_removes [of s]
  by (auto simp: start_download_def tracked_def Let_def)

lemma finish_download_dirs:
  "dirs (finish_download F i s) = dirs s \<and> tracked (finish_download F i s) = tracked s"
  by (auto simp: finish_download_def tracked_def split: sum.splits)

lemma video_info_update_tracked:
  "dirs_tracked s \<Longrightarrow> dirs_tracked (s\<lparr>session := (session s)\<lparr>s_video_info := v\<rparr>\<rparr>)"
  by (simp add: dirs_tracked_def tracked_def)

lemma run_tracked:
  assumes "dirs_tracked s" and "in_rmtree_ok i" and "in_mkdtemp i \<noteq> []"
  shows "dirs_tracked (run F i s)"
proof -
  let ?s1 = "url_changed i s"
  have s1: "dirs_tracked ?s1" using assms by (simp add: url_changed_tracked)
  show ?thesis
  proof (cases "in_url i \<noteq> [] \<and> is_valid_youtube_url (in_url i)")
    case False
    with s1 show ?thesis by (auto simp: run_def Let_def)
  next
    case True
    show ?thesis
    proof (cases "in_info i")
      case None
      with True s1 show ?thesis by (simp add: run_def Let_def)
    next
      case (Some info)
      let ?s2 = "?s1\<lparr>session := (session ?s1)\<lparr>s_video_info := Some info\<rparr>\<rparr>"
      have s2: "dirs_tracked ?s2" using s1 by (rule video_info_update_tracked)
      show ?thesis
      proof (cases "in_clicked i")
        case False
        with True Some s2 show ?thesis by (simp add: run_def Let_def)
      next
        case click: True
        have "dirs_tracked (finish_download F i (start_download i ?s2))"
          using start_download_fresh [OF s2 assms(2)] finish_download_dirs [of F i "start_download i ?s2"] assms(3)
          by (simp add: dirs_tracked_def)
        with True Some click show ?thesis by (simp add: run_def Let_def)
      qed
    qed
  qed
qed

lemma runs_tracked:
  "dirs_tracked s \<Longrightarrow> mkdtemp_fresh F is s \<Longrightarrow> list_all in_rmtree_ok is \<Longrightarrow>
     dirs_tracked (runs F is s)"
proof (induction "is" arbitrary: s)
  case Nil
  then show ?case by simp
next
  case (Cons i "is")
  from Cons.prems have "dirs_tracked (run F i s)" by (simp add: run_tracked)
  with Cons show ?case by simp
qed

lemma init_tracked: "dirs_tracked init_state"
  by (simp add: dirs_tracked_def init_state_def tracked_def)

lemma card_tracked: "dirs_tracked s \<Longrightarrow> card (dirs s) \<le> 1"
proof -
  assume "dirs_tracked s"
  then have sub: "dirs s \<subseteq> tracked s" by (simp add: dirs_tracked_def)
  have "finite (tracked s)" "card (tracked s) \<le> 1"
    by (simp_all add: tracked_def split: option.splits)
  with sub show ?thesis by (meson card_mono order_trans)
qed

text \<open>
  Claim C6, amended. In every state reached by runs of the script in which each removal
  succeeds, every temporary directory that exists is the one the session tracks, so at
  most one exists. From such a state, a cleanup, a change of the URL and the start of a
  download with a successful removal leave no directory of an earlier attempt: after the
  cleanup and after the change of the URL none exists, and the download runs with the
  fresh directory as the only one.
\<close>

theorem one_temp_dir:
  "mkdtemp_fresh F is init_state \<and> list_all in_rmtree_ok is \<longrightarrow>
     dirs (runs F is init_state) \<subseteq> tracked (runs F is init_state)
     \<and> card (dirs (runs F is init_state)) \<le> 1
     \<and> (in_rmtree_ok i \<longrightarrow>
          dirs (cleanup_temp (in_rmtree_ok i) (runs F is init_state)) = {}
          \<and> dirs (start_download i (runs F is init_state)) = {in_mkdtemp i}
          \<and> (in_url i \<noteq> s_last_url (session (runs F is init_state)) \<longrightarrow>
               dirs (url_changed i (runs F is init_state)) = {})
          \<and> (in_clicked i \<and> in_info i \<noteq> None \<and> in_url i \<noteq> [] \<and> is_valid_youtube_url (in_url i) \<longrightarrow>
               dirs (run F i (runs F is init_state)) = {in_mkdtemp i}))"
proof (intro impI)
  assume a: "mkdtemp_fresh F is init_state \<and> list_all in_rmtree_ok is"
  let ?s = "runs F is init_state"
  from a have t: "dirs_tracked ?s" using init_tracked by (simp add: runs_tracked)
  then have 1: "dirs ?s \<subseteq> tracked ?s" by (simp add: dirs_tracked_def)
  from t have 2: "card (dirs ?s) \<le> 1" by (rule card_tracked)
  have 3: "in_rmtree_ok i \<longrightarrow>
          dirs (cleanup_temp (in_rmtree_ok i) ?s) = {}
          \<and> dirs (start_download i ?s) = {in_mkdtemp i}
          \<and> (in_url i \<noteq> s_last_url (session ?s) \<longrightarrow> dirs (url_changed i ?s) = {})
          \<and> (in_clicked i \<and> in_info i \<noteq> None \<and> in_url i \<noteq> [] \<and> is_valid_youtube_url (in_url i) \<longrightarrow>
               dirs (run F i ?s) = {in_mkdtemp i})"
  proof
    assume ok: "in_rmtree_ok i"
    have c: "dirs (cleanup_temp (in_rmtree_ok i) ?s) = {}"
      using cleanup_temp_removes [OF t] ok by simp
    have d: "dirs (start_download i ?s) = {in_mkdtemp i}"
      using start_download_fresh [OF t ok] by simp
    have u: "in_url i \<noteq> s_last_url (session ?s) \<longrightarrow> dirs (url_changed i ?s) = {}"
      using url_changed_removes [OF t ok] by simp
    have r: "in_clicked i \<and> in_info i \<noteq> None \<and> in_url i \<noteq> [] \<and> is_valid_youtube_url (in_url i) \<longrightarrow>
               dirs (run F i ?s) = {in_mkdtemp i}"
    proof
      assume h: "in_clicked i \<and> in_info i \<noteq> None \<and> in_url i \<noteq> [] \<and> is_valid_youtube_url (in_url i)"
      then obtain info where info: "in_info i = Some info" by auto
      let ?s1 = "url_changed i ?s"
      let ?s2 = "?s1\<lparr>session := (session ?s1)\<lparr>s_video_info := Some info\<rparr>\<rparr>"
      have "dirs_tracked ?s2"
        using url_changed_tracked [OF t ok] by (rule video_info_update_tracked)
      then have "dirs (finish_download F i (start_download i ?s2)) = {in_mkdtemp i}"
        using start_download_fresh [of ?s2 i] ok finish_download_dirs [of F i "start_download i ?s2"]
        by simp
      with h info show "dirs (run F i ?s) = {in_mkdtemp i}" by (simp add: run_def Let_def)
    qed
    from c d u r show "dirs (cleanup_temp (in_rmtree_ok i) ?s) = {}
          \<and> dirs (start_download i ?s) = {in_mkdtemp i}
          \<and> (in_url i \<noteq> s_last_url (session ?s) \<longrightarrow> dirs (url_changed i ?s) = {})
          \<and> (in_clicked i \<and> in_info i \<noteq> None \<and> in_url i \<noteq> [] \<and> is_valid_youtube_url (in_url i) \<longrightarrow>
               dirs (run F i ?s) = {in_mkdtemp i})"
      by blast
  qed
  from 1 2 3 show "dirs ?s \<subseteq> tracked ?s \<and> card (dirs ?s) \<le> 1
     \<and> (in_rmtree_ok i \<longrightarrow>
          dirs (cleanup_temp (in_rmtree_ok i) ?s) = {}
          \<and> dirs (start_download i ?s) = {in_mkdtemp i}
          \<and> (in_url i \<noteq> s_last_url (session ?s) \<longrightarrow> dirs (url_changed i ?s) = {})
          \<and> (in_clicked i \<and> in_info i \<noteq> None \<and> in_url i \<noteq> [] \<and> is_valid_youtube_url (in_url i) \<longrightarrow>
               dirs (run F i ?s) = {in_mkdtemp i}))"
    by blast
qed

theorem one_temp_dir_witness:
  "mkdtemp_fresh None [first_click] init_state \<and> list_all in_rmtree_ok [first_click]
   \<and> in_rmtree_ok (second_click True)
   \<and> card (dirs (runs None [first_click] init_state)) \<le> 1
   \<and> dirs (run None (second_click True) (runs None [first_click] init_state)) = {''/tmp/ytdl_b''}"
proof -
  have 1: "mkdtemp_fresh None [first_click] init_state"
    by (simp add: first_click_def init_state_def)
  have 2: "list_all in_rmtree_ok [first_click]" by (simp add: first_click_def)
  have 3: "in_rmtree_ok (second_click True)" "in_clicked (second_click True)"
    "in_info (second_click True) \<noteq> None" "in_url (second_click True) \<noteq> []"
    "is_valid_youtube_url (in_url (second_click True))"
    "in_mkdtemp (second_click True) = ''/tmp/ytdl_b''"
    using valid_example by (simp_all add: second_click_def)
  from 1 2 3 one_temp_dir [of None "[first_click]" "second_click True"]
  show ?thesis by simp
qed

end
